theory Spec2Isabelle
  imports Main
begin

section \<open>dhatless: a shallow embedding of \<^verbatim>\<open>main.go\<close>\<close>

text \<open>
  The program decodes a DHAT report, drops the program points whose frame stack
  mentions a keyword of the ignore file, and prints the others. Go strings are
  byte sequences, modelled as \<^typ>\<open>string\<close>. A Go \<^verbatim>\<open>int\<close> is modelled as
  \<^typ>\<open>int\<close>: the program does no arithmetic on the decoded numbers, and the one
  counter it increments starts at 1 and is bumped at most once per program point.
  Standard output is the list of the writes made, one element per call to
  \<^verbatim>\<open>fmt.Print*\<close>, in the order of the calls.
\<close>

subsection \<open>Failures\<close>

text \<open>
  A run ends early either by a returned \<^verbatim>\<open>error\<close> or by a run-time panic. The panic
  that reading a report can raise is Go's bounds check,
  \<^verbatim>\<open>index out of range [i] with length n\<close>; nothing in the program recovers from it.
\<close>

datatype failure =
    IndexOutOfRange int nat
  | OSError string
  | Errorf string

text \<open>Indexing a slice, \<^verbatim>\<open>xs[i]\<close>, with Go's bounds check.\<close>

definition index :: "'a list \<Rightarrow> int \<Rightarrow> failure + 'a" where
  "index xs i =
     (if 0 \<le> i \<and> i < int (length xs) then Inr (xs ! nat i)
      else Inl (IndexOutOfRange i (length xs)))"

subsection \<open>The functions of package \<^verbatim>\<open>strings\<close>, \<^verbatim>\<open>html\<close> and \<^verbatim>\<open>fmt\<close> that the program calls\<close>

text \<open>\<^verbatim>\<open>strings.Index\<close>: the position of the first instance of \<open>substr\<close>, \<open>None\<close> for Go's -1.\<close>

fun Index :: "string \<Rightarrow> string \<Rightarrow> nat option" where
  "Index [] substr = (if substr = [] then Some 0 else None)"
| "Index (c # cs) substr =
     (if take (length substr) (c # cs) = substr then Some 0
      else map_option Suc (Index cs substr))"

text \<open>\<^verbatim>\<open>strings.Contains(s, substr)\<close> is \<^verbatim>\<open>Index(s, substr) >= 0\<close>.\<close>

definition Contains :: "string \<Rightarrow> string \<Rightarrow> bool" where
  "Contains s substr = (Index s substr \<noteq> None)"

lemma Index_bound: "Index s sep = Some m \<Longrightarrow> m + length sep \<le> length s"
proof (induction s arbitrary: m)
  case Nil
  then show ?case by (simp split: if_splits)
next
  case (Cons c cs)
  show ?case
  proof (cases "take (length sep) (c # cs) = sep")
    case True
    have "length (take (length sep) (c # cs)) \<le> length (c # cs)"
      by simp
    with True have "length sep \<le> length (c # cs)"
      by simp
    with True Cons.prems show ?thesis by simp
  next
    case False
    with Cons.prems obtain k where "Index cs sep = Some k" "m = Suc k"
      by auto
    with Cons.IH show ?thesis by fastforce
  qed
qed

text \<open>
  \<^verbatim>\<open>strings.Split(s, sep)\<close>, as \<^verbatim>\<open>genSplit\<close> computes it: cut at the first instance of
  the separator, then go on in what follows it; the last piece is what is left when
  no instance remains. The program only passes the separators \<^verbatim>\<open>": "\<close> and
  \<^verbatim>\<open>"\n"\<close>; for an empty separator Go explodes the string into its UTF-8
  sequences, which are the single bytes of an ASCII string.
\<close>

function Split :: "string \<Rightarrow> string \<Rightarrow> string list" where
  "Split s sep =
     (if sep = [] then map (\<lambda>c. [c]) s
      else case Index s sep of
             None \<Rightarrow> [s]
           | Some m \<Rightarrow> take m s # Split (drop (m + length sep) s) sep)"
  by pat_completeness auto
termination
proof (relation "measure (\<lambda>(s, sep). length s)")
  show "wf (measure (\<lambda>(s, sep). length s))" by simp
next
  fix s sep :: string and m :: nat
  assume sep: "sep \<noteq> []" and m: "Index s sep = Some m"
  from m have "m + length sep \<le> length s"
    by (rule Index_bound)
  moreover from sep have "0 < length sep"
    by simp
  ultimately have "length s - (m + length sep) < length s"
    by arith
  then show "((drop (m + length sep) s, sep), (s, sep)) \<in> measure (\<lambda>(s, sep). length s)"
    by simp
qed

declare Split.simps [simp del]

text \<open>
  \<^verbatim>\<open>strings.Trim(s, cutset)\<close> for a cutset of ASCII bytes: the leading and the
  trailing bytes that belong to the cutset are removed.
\<close>

definition TrimLeft :: "string \<Rightarrow> string \<Rightarrow> string" where
  "TrimLeft s cutset = dropWhile (\<lambda>c. c \<in> set cutset) s"

definition TrimRight :: "string \<Rightarrow> string \<Rightarrow> string" where
  "TrimRight s cutset = rev (dropWhile (\<lambda>c. c \<in> set cutset) (rev s))"

definition Trim :: "string \<Rightarrow> string \<Rightarrow> string" where
  "Trim s cutset = TrimLeft (TrimRight s cutset) cutset"

text \<open>
  \<^verbatim>\<open>html.EscapeString\<close> replaces exactly five characters:
  \<^verbatim>\<open>&\<close>, \<^verbatim>\<open>'\<close>, \<^verbatim>\<open><\<close>, \<^verbatim>\<open>>\<close> and \<^verbatim>\<open>"\<close>.
\<close>

definition escapeChar :: "char \<Rightarrow> string" where
  "escapeChar c =
     (if c = CHR ''&'' then ''&amp;''
      else if c = CHR 0x27 then ''&#39;''
      else if c = CHR ''<'' then ''&lt;''
      else if c = CHR ''>'' then ''&gt;''
      else if c = CHR 0x22 then ''&#34;''
      else [c])"

definition EscapeString :: "string \<Rightarrow> string" where
  "EscapeString s = concat (map escapeChar s)"

text \<open>The verb \<^verbatim>\<open>%d\<close> of \<^verbatim>\<open>fmt\<close>: decimal digits, with a minus sign below zero.\<close>

fun digits :: "nat \<Rightarrow> string" where
  "digits n =
     (if n < 10 then [char_of (48 + n)]
      else digits (n div 10) @ [char_of (48 + n mod 10)])"

declare digits.simps [simp del]

definition itoa :: "int \<Rightarrow> string" where
  "itoa i = (if i < 0 then CHR ''-'' # digits (nat (- i)) else digits (nat i))"

subsection \<open>The report\<close>

record ProgramPoint =
  TotalBytes :: int
  TotalBlocks :: int
  TotalLifetimesOfBlocks :: int
  MaxBytes :: int
  MaxBlocks :: int
  BytesAtTgmax :: int
  BlocksAtTgmax :: int
  BytesAtTend :: int
  BlocksAtTend :: int
  ReadsOfBlocks :: int
  WritesOfBlocks :: int
  BlockAccesses :: "int list"
  Frames :: "int list"

record Report =
  Version :: int
  InvocationMode :: string
  StackFrameVerb :: string
  BlockLifetimesRecorded :: bool
  BlockAccessesRecorded :: bool
  ByteUnit :: string
  BytesUnit :: string
  BlocksUnit :: string
  TimeUnit :: string
  MilTimeUnit :: string
  ShortLivedTimeThreshold :: int
  Cmd :: string
  PID :: int
  TimeAtEnd :: int
  TimeAtGlobalMax :: int
  ProgramPoints :: "ProgramPoint list"
  FramesTable :: "string list"

text \<open>
  The zero values of the two structs: \<^verbatim>\<open>var report Report\<close> is what the decoder
  starts from, and a field the document omits keeps its zero value.
\<close>

definition zeroProgramPoint :: ProgramPoint where
  "zeroProgramPoint =
     \<lparr>TotalBytes = 0, TotalBlocks = 0, TotalLifetimesOfBlocks = 0, MaxBytes = 0,
      MaxBlocks = 0, BytesAtTgmax = 0, BlocksAtTgmax = 0, BytesAtTend = 0,
      BlocksAtTend = 0, ReadsOfBlocks = 0, WritesOfBlocks = 0, BlockAccesses = [],
      Frames = []\<rparr>"

definition zeroReport :: Report where
  "zeroReport =
     \<lparr>Version = 0, InvocationMode = [], StackFrameVerb = [],
      BlockLifetimesRecorded = False, BlockAccessesRecorded = False, ByteUnit = [],
      BytesUnit = [], BlocksUnit = [], TimeUnit = [], MilTimeUnit = [],
      ShortLivedTimeThreshold = 0, Cmd = [], PID = 0, TimeAtEnd = 0,
      TimeAtGlobalMax = 0, ProgramPoints = [], FramesTable = []\<rparr>"

text \<open>\<^verbatim>\<open>Report.GetFrame\<close>: the second piece of the entry split at \<^verbatim>\<open>": "\<close>.\<close>

definition GetFrame :: "Report \<Rightarrow> int \<Rightarrow> failure + string" where
  "GetFrame r i =
     (case index (FramesTable r) i of
        Inl e \<Rightarrow> Inl e
      | Inr entry \<Rightarrow> index (Split entry '': '') 1)"

text \<open>
  \<^verbatim>\<open>Report.ProgramPointHasFrame\<close>: the loop over the frames of the program point,
  then the method, which first indexes the program points. The variable \<^verbatim>\<open>sym\<close> of
  the source is \<open>symb\<close> here.
\<close>

fun hasFrame :: "Report \<Rightarrow> int list \<Rightarrow> string \<Rightarrow> failure + bool" where
  "hasFrame r [] s = Inr False"
| "hasFrame r (frame # rest) s =
     (case index (FramesTable r) frame of
        Inl e \<Rightarrow> Inl e
      | Inr entry \<Rightarrow>
          (case index (Split entry '': '') 1 of
             Inl e \<Rightarrow> Inl e
           | Inr symb \<Rightarrow> if Contains symb s then Inr True else hasFrame r rest s))"

definition ProgramPointHasFrame :: "Report \<Rightarrow> int \<Rightarrow> string \<Rightarrow> failure + bool" where
  "ProgramPointHasFrame r i s =
     (case index (ProgramPoints r) i of
        Inl e \<Rightarrow> Inl e
      | Inr pp \<Rightarrow> hasFrame r (Frames pp) s)"

fun shouldIgnore :: "Report \<Rightarrow> int \<Rightarrow> string list \<Rightarrow> failure + bool" where
  "shouldIgnore r frame [] = Inr False"
| "shouldIgnore r frame (s # rest) =
     (case ProgramPointHasFrame r frame s of
        Inl e \<Rightarrow> Inl e
      | Inr True \<Rightarrow> Inr True
      | Inr False \<Rightarrow> shouldIgnore r frame rest)"

text \<open>
  The data model's invariant on a frame index: it lies within the frame table and the
  entry it names contains the separator. A report is valid when every frame index of
  every program point is such.
\<close>

definition resolves :: "Report \<Rightarrow> int \<Rightarrow> bool" where
  "resolves r f \<longleftrightarrow>
     0 \<le> f \<and> f < int (length (FramesTable r)) \<and>
     Contains (FramesTable r ! nat f) '': ''"

definition valid :: "Report \<Rightarrow> bool" where
  "valid r \<longleftrightarrow> list_all (\<lambda>pp. list_all (resolves r) (Frames pp)) (ProgramPoints r)"

subsection \<open>The environment and the ignore file\<close>

text \<open>
  What the program reads from outside: the files (\<^verbatim>\<open>os.ReadFile\<close>, \<^verbatim>\<open>os.Create\<close>), the
  decoder of the report (\<^verbatim>\<open>os.Open\<close> followed by \<^verbatim>\<open>json.Decode\<close>, both of the
  standard library) and the build information that \<^verbatim>\<open>version\<close> prints.
\<close>

record BuildInfo =
  GoVersion :: string
  MainVersion :: string
  Settings :: "(string \<times> string) list"

record Env =
  ReadFile :: "string \<Rightarrow> failure + string"
  Create :: "string \<Rightarrow> failure option"
  Decode :: "string \<Rightarrow> failure + Report"
  ReadBuildInfo :: BuildInfo

definition newline :: string where
  "newline = [CHR 0x0A]"

text \<open>
  The loop of \<^verbatim>\<open>parseIgnoreFile\<close> over the lines, with the slice \<open>ignoreList\<close> it
  appends to.
\<close>

fun ignoreLines :: "string list \<Rightarrow> string list \<Rightarrow> string list" where
  "ignoreLines [] ignoreList = ignoreList"
| "ignoreLines (l # rest) ignoreList =
     (let line = Trim l [CHR '' '', CHR 0x09] in
      if line = [] then ignoreLines rest ignoreList
      else if hd line = CHR ''#'' then ignoreLines rest ignoreList
      else ignoreLines rest (ignoreList @ [line]))"

definition parseIgnoreFile :: "Env \<Rightarrow> string \<Rightarrow> failure + string list" where
  "parseIgnoreFile env file =
     (if file = [] then Inr []
      else case ReadFile env file of
             Inl e \<Rightarrow> Inl e
           | Inr content \<Rightarrow> Inr (ignoreLines (Split content newline) []))"

definition parseReport :: "Env \<Rightarrow> string \<Rightarrow> failure + Report" where
  "parseReport env file = Decode env file"

subsection \<open>Printing\<close>

text \<open>
  A piece of the run gives the writes it made and the failure that ended it, if any.
  \<open>andThen\<close> is the semicolon: the second piece runs only when the first one ended
  without failure.
\<close>

type_synonym outcome = "string list \<times> failure option"

definition Print :: "string \<Rightarrow> outcome" where
  "Print s = ([s], None)"

definition skip :: outcome where
  "skip = ([], None)"

definition andThen :: "outcome \<Rightarrow> outcome \<Rightarrow> outcome" where
  "andThen a b = (case snd a of Some e \<Rightarrow> a | None \<Rightarrow> (fst a @ fst b, snd b))"

definition htmlHeader :: string where
  "htmlHeader =
     [CHR 0x0A] @
     ''<!DOCTYPE html>'' @ [CHR 0x0A] @
     [CHR 0x0A] @
     ''<html lang='' @ [CHR 0x22] @ ''en'' @ [CHR 0x22] @ ''>'' @ [CHR 0x0A] @
     [CHR 0x0A] @
     ''<head>'' @ [CHR 0x0A] @
     [CHR 0x0A] @
     ''<meta charset='' @ [CHR 0x22] @ ''utf-8'' @ [CHR 0x22] @ ''>'' @ [CHR 0x0A] @
     ''<meta name='' @ [CHR 0x22] @ ''viewport'' @ [CHR 0x22] @ '' content='' @ [CHR 0x22] @ ''width=device-width, initial-scale=1.0'' @ [CHR 0x22] @ ''>'' @ [CHR 0x0A] @
     [CHR 0x0A] @
     ''<style>'' @ [CHR 0x0A] @
     ''body {'' @ [CHR 0x0A] @
     ''font-size: 15px;'' @ [CHR 0x0A] @
     ''}'' @ [CHR 0x0A] @
     ''pre {'' @ [CHR 0x0A] @
     ''overflow-x: auto;'' @ [CHR 0x0A] @
     ''}'' @ [CHR 0x0A] @
     [CHR 0x0A] @
     ''details > summary {'' @ [CHR 0x0A] @
     ''  padding: 2px 6px;'' @ [CHR 0x0A] @
     ''  width: 15em;'' @ [CHR 0x0A] @
     ''  background-color: #ddd;'' @ [CHR 0x0A] @
     ''  border: none;'' @ [CHR 0x0A] @
     ''  box-shadow: 3px 3px 4px black;'' @ [CHR 0x0A] @
     ''  cursor: pointer;'' @ [CHR 0x0A] @
     ''}'' @ [CHR 0x0A] @
     [CHR 0x0A] @
     ''pre {'' @ [CHR 0x0A] @
     ''  border-radius: 0 0 10px 10px;'' @ [CHR 0x0A] @
     ''  background-color: #ddd;'' @ [CHR 0x0A] @
     ''  padding: 2px 6px;'' @ [CHR 0x0A] @
     ''  margin: 0;'' @ [CHR 0x0A] @
     ''  box-shadow: 3px 3px 4px black;'' @ [CHR 0x0A] @
     ''}'' @ [CHR 0x0A] @
     [CHR 0x0A] @
     ''details[open] > summary {'' @ [CHR 0x0A] @
     ''  background-color: #ccf;'' @ [CHR 0x0A] @
     ''}'' @ [CHR 0x0A] @
     [CHR 0x0A] @
     ''button {'' @ [CHR 0x0A] @
     ''  background-color: #ddd;'' @ [CHR 0x0A] @
     ''  font-size: 15px;'' @ [CHR 0x0A] @
     ''  width: 10%;'' @ [CHR 0x0A] @
     ''}'' @ [CHR 0x0A] @
     [CHR 0x0A] @
     ''</style>'' @ [CHR 0x0A] @
     [CHR 0x0A] @
     ''<title>DHAT allocations report</title>'' @ [CHR 0x0A] @
     [CHR 0x0A] @
     ''</head>'' @ [CHR 0x0A] @
     [CHR 0x0A] @
     ''<body>'' @ [CHR 0x0A] @
     [CHR 0x0A] @
     ''<button id='' @ [CHR 0x22] @ ''btn-openall'' @ [CHR 0x22] @ ''>Open All</button>'' @ [CHR 0x0A] @
     ''<button id='' @ [CHR 0x22] @ ''btn-closeall'' @ [CHR 0x22] @ ''>Close All</button>'' @ [CHR 0x0A] @
     ''<hr>'' @ [CHR 0x0A] @
     [CHR 0x0A] @
     ''<script>'' @ [CHR 0x0A] @
     [CHR 0x0A] @
     ''document.getElementById('' @ [CHR 0x22] @ ''btn-openall'' @ [CHR 0x22] @ '').addEventListener('' @ [CHR 0x22] @ ''click'' @ [CHR 0x22] @ '', function(event) {'' @ [CHR 0x0A] @
     ''  const elements = document.querySelectorAll('' @ [CHR 0x27] @ ''details'' @ [CHR 0x27] @ '');'' @ [CHR 0x0A] @
     ''  elements.forEach(element => {'' @ [CHR 0x0A] @
     ''    element.open = true;'' @ [CHR 0x0A] @
     ''  });'' @ [CHR 0x0A] @
     ''});'' @ [CHR 0x0A] @
     [CHR 0x0A] @
     ''document.getElementById('' @ [CHR 0x22] @ ''btn-closeall'' @ [CHR 0x22] @ '').addEventListener('' @ [CHR 0x22] @ ''click'' @ [CHR 0x22] @ '', function(event) {'' @ [CHR 0x0A] @
     ''  const elements = document.querySelectorAll('' @ [CHR 0x27] @ ''details'' @ [CHR 0x27] @ '');'' @ [CHR 0x0A] @
     ''  elements.forEach(element => {'' @ [CHR 0x0A] @
     ''    element.open = false;'' @ [CHR 0x0A] @
     ''  });'' @ [CHR 0x0A] @
     ''});'' @ [CHR 0x0A] @
     [CHR 0x0A] @
     ''</script>'' @ [CHR 0x0A] @
     [CHR 0x0A]"

definition htmlFooter :: string where
  "htmlFooter =
     [CHR 0x0A] @
     ''</body>'' @ [CHR 0x0A] @
     ''</html>'' @ [CHR 0x0A]"

text \<open>
  The loop \<^verbatim>\<open>for j := len(pp.Frames) - 1; j >= 0; j--\<close>. The last argument is
  \<open>j + 1\<close>, the number of frames still to print.
\<close>

fun printFrames :: "bool \<Rightarrow> Report \<Rightarrow> int list \<Rightarrow> nat \<Rightarrow> outcome" where
  "printFrames outputHtml r fs 0 = skip"
| "printFrames outputHtml r fs (Suc j) =
     (case index fs (int j) of
        Inl e \<Rightarrow> ([], Some e)
      | Inr f \<Rightarrow>
          (case GetFrame r f of
             Inl e \<Rightarrow> ([], Some e)
           | Inr frame \<Rightarrow>
               andThen
                 (Print ((if outputHtml then EscapeString frame else frame) @ newline))
                 (printFrames outputHtml r fs j)))"

text \<open>The body of the loop over the program points, for one that is not ignored.\<close>

definition printAllocation :: "bool \<Rightarrow> Report \<Rightarrow> int \<Rightarrow> ProgramPoint \<Rightarrow> outcome" where
  "printAllocation outputHtml r allocCount pp =
     andThen
       (if outputHtml
        then Print (''<details><summary>Allocation #'' @ itoa allocCount @
                    ''</summary><br><p>'' @ newline)
        else Print (newline @ ''==== Allocation #'' @ itoa allocCount @ '' ===='' @ newline))
    (andThen
       (Print (itoa (TotalBytes pp) @ '' bytes in '' @ itoa (TotalBlocks pp) @
               '' blocks'' @ newline))
    (andThen
       (if outputHtml then Print (''</p><pre>'' @ newline) else skip)
    (andThen
       (printFrames outputHtml r (Frames pp) (length (Frames pp)))
       (if outputHtml then Print (''</pre></details><br>'' @ newline) else skip))))"

text \<open>
  The loop \<^verbatim>\<open>for i, pp := range report.ProgramPoints\<close>, with the index \<open>i\<close> of the
  program point at the head of the list and the counter \<open>allocCount\<close>.
\<close>

fun printProgramPoints ::
  "bool \<Rightarrow> Report \<Rightarrow> string list \<Rightarrow> nat \<Rightarrow> int \<Rightarrow> ProgramPoint list \<Rightarrow> outcome" where
  "printProgramPoints outputHtml r ignoreList i allocCount [] = skip"
| "printProgramPoints outputHtml r ignoreList i allocCount (pp # rest) =
     (case shouldIgnore r (int i) ignoreList of
        Inl e \<Rightarrow> ([], Some e)
      | Inr True \<Rightarrow> printProgramPoints outputHtml r ignoreList (Suc i) allocCount rest
      | Inr False \<Rightarrow>
          andThen
            (printAllocation outputHtml r allocCount pp)
            (printProgramPoints outputHtml r ignoreList (Suc i) (allocCount + 1) rest))"

text \<open>
  Lines 111 to 169 of \<^verbatim>\<open>mainErr\<close>, everything printed once the report is accepted:
  the header (lines 111 to 126), the loop, the closing tags.
\<close>

definition printHeader :: "bool \<Rightarrow> Report \<Rightarrow> outcome" where
  "printHeader outputHtml report =
     andThen (if outputHtml then Print htmlHeader else skip)
    (andThen (if outputHtml then Print (''<br><pre>'' @ newline) else skip)
    (andThen (Print (''Command: '' @ Cmd report @ newline))
    (andThen (Print (''PID: '' @ itoa (PID report) @ newline))
    (andThen (Print (''Mode: '' @ InvocationMode report @ newline))
    (andThen (Print (''t-end: '' @ itoa (TimeAtEnd report) @ '' '' @ TimeUnit report @ newline))
             (if outputHtml then Print (''</pre><br><hr><br>'' @ newline) else skip))))))"

definition render :: "bool \<Rightarrow> Report \<Rightarrow> string list \<Rightarrow> outcome" where
  "render outputHtml report ignoreList =
     andThen (printHeader outputHtml report)
    (andThen (printProgramPoints outputHtml report ignoreList 0 1 (ProgramPoints report))
             (if outputHtml then Print htmlFooter else skip))"

subsection \<open>The command\<close>

text \<open>
  \<^verbatim>\<open>version\<close>: \<^verbatim>\<open>fmt.Println\<close> puts a space between its two operands and a newline
  at the end.
\<close>

fun g :: "(string \<times> string) list \<Rightarrow> string \<Rightarrow> string" where
  "g [] k = []"
| "g ((key, val) # rest) k = (if key = k then val else g rest k)"

definition version :: "BuildInfo \<Rightarrow> outcome" where
  "version bi =
     andThen (Print (''go     '' @ '' '' @ GoVersion bi @ newline))
    (andThen (Print (''main   '' @ '' '' @ MainVersion bi @ newline))
    (andThen (if g (Settings bi) ''vcs.revision'' \<noteq> []
              then Print (''commit '' @ '' '' @ g (Settings bi) ''vcs.revision'' @ newline)
              else skip)
    (andThen (if g (Settings bi) ''vcs.time'' \<noteq> []
              then Print (''time   '' @ '' '' @ g (Settings bi) ''vcs.time'' @ newline)
              else skip)
             (if g (Settings bi) ''vcs.modified'' \<noteq> []
              then Print (''dirty  '' @ '' '' @ g (Settings bi) ''vcs.modified'' @ newline)
              else skip))))"

text \<open>
  The flags as \<^verbatim>\<open>fset.Parse\<close> leaves them when it succeeds; \<open>args\<close> are the
  arguments that are not flags. When parsing fails \<^verbatim>\<open>mainErr\<close> returns before it
  prints anything to standard output.
\<close>

record Flags =
  ignoreFile :: string
  outputHtml :: bool
  printVersion :: bool
  cpuProfile :: bool
  memProfile :: bool
  args :: "string list"

definition dhatVersion :: int where
  "dhatVersion = 2"

text \<open>
  \<^verbatim>\<open>mainErr\<close> from line 64 on. The usage text goes to standard error, as does all that
  the deferred memory profile may print; neither changes the value returned.
\<close>

definition mainErr :: "Env \<Rightarrow> Flags \<Rightarrow> outcome" where
  "mainErr env fl =
     (if printVersion fl then version (ReadBuildInfo env)
      else if length (args fl) \<noteq> 1 then ([], Some (Errorf ''need DHAT file''))
      else case (if cpuProfile fl then Create env ''profile.cpu'' else None) of
        Some e \<Rightarrow> ([], Some e)
      | None \<Rightarrow>
         (case parseIgnoreFile env (ignoreFile fl) of
            Inl e \<Rightarrow> ([], Some e)
          | Inr ignoreList \<Rightarrow>
             (case parseReport env (hd (args fl)) of
                Inl e \<Rightarrow> ([], Some e)
              | Inr report \<Rightarrow>
                  if Version report \<noteq> dhatVersion
                  then ([], Some (Errorf (''DHAT report version '' @ itoa (Version report) @
                          '' is not supported, only version '' @ itoa dhatVersion @
                          '' is supported'')))
                  else render (outputHtml fl) report ignoreList)))"

subsection \<open>Reports used as concrete inputs\<close>

text \<open>
  One program point of 100 bytes in 1 block with the frames 0 and 1, over the frame table
  \<^verbatim>\<open>["at: main", "at: alloc"]\<close>.
\<close>

definition examplePoint :: ProgramPoint where
  "examplePoint = zeroProgramPoint\<lparr>TotalBytes := 100, TotalBlocks := 1, Frames := [0, 1]\<rparr>"

definition exampleReport :: Report where
  "exampleReport =
     zeroReport\<lparr>Version := 2, ProgramPoints := [examplePoint],
                FramesTable := [''at: main'', ''at: alloc'']\<rparr>"

text \<open>
  The same report with a second entry of the frame table that has no separator, and a
  second program point that does not refer to it.
\<close>

definition malformedReport :: Report where
  "malformedReport =
     exampleReport\<lparr>ProgramPoints := [examplePoint, examplePoint\<lparr>Frames := [0]\<rparr>],
                   FramesTable := [''at: main'', ''alloc'']\<rparr>"




text \<open>
  Three program points over a table of three entries; the second one allocates under
  \<^verbatim>\<open>free\<close>.
\<close>

definition threeReport :: Report where
  "threeReport =
     zeroReport\<lparr>Version := 2,
       ProgramPoints :=
         [zeroProgramPoint\<lparr>TotalBytes := 100, TotalBlocks := 1, Frames := [1, 0]\<rparr>,
          zeroProgramPoint\<lparr>TotalBytes := 8, TotalBlocks := 2, Frames := [2, 0]\<rparr>,
          zeroProgramPoint\<lparr>TotalBytes := 16, TotalBlocks := 1, Frames := [0]\<rparr>],
       FramesTable := [''at: main'', ''at: alloc'', ''at: free'']\<rparr>"

text \<open>A frame table whose entry holds the separator twice.\<close>

definition twiceReport :: Report where
  "twiceReport = zeroReport\<lparr>FramesTable := [''at: foo: bar'']\<rparr>"

text \<open>
  A file system with an ignore file of four lines, a report of version 2 and one of
  version 1, and a command line that names the latter.
\<close>

definition exampleEnv :: Env where
  "exampleEnv =
     \<lparr>ReadFile = (\<lambda>file.
        if file = ''ignore.txt''
        then Inr (''  foo  '' @ newline @ ''#comment'' @ newline @ [] @ newline @ ''bar'')
        else Inl (OSError ''no such file or directory'')),
      Create = (\<lambda>file. None),
      Decode = (\<lambda>file.
        if file = ''dhat.json'' then Inr exampleReport
        else if file = ''old.json'' then Inr (exampleReport\<lparr>Version := 1\<rparr>)
        else Inl (OSError ''no such file or directory'')),
      ReadBuildInfo = \<lparr>GoVersion = ''go1.22'', MainVersion = ''(devel)'', Settings = []\<rparr>\<rparr>"

definition exampleFlags :: Flags where
  "exampleFlags =
     \<lparr>ignoreFile = ''ignore.txt'', outputHtml = False, printVersion = False,
      cpuProfile = False, memProfile = False, args = [''old.json'']\<rparr>"

section \<open>Properties\<close>

subsection \<open>Searching and splitting strings\<close>

lemma Index_Nil [simp]: "Index s [] = Some 0"
  by (cases s) simp_all

lemma Index_decompose:
  "Index s sub = Some m \<Longrightarrow> s = take m s @ sub @ drop (m + length sub) s"
proof (induction s arbitrary: m)
  case Nil
  then show ?case by (simp split: if_splits)
next
  case (Cons c cs)
  show ?case
  proof (cases "take (length sub) (c # cs) = sub")
    case True
    with Cons.prems have "m = 0" by simp
    moreover have "c # cs = take (length sub) (c # cs) @ drop (length sub) (c # cs)"
      by (simp only: append_take_drop_id)
    ultimately show ?thesis using True by simp
  next
    case False
    with Cons.prems obtain k where k: "Index cs sub = Some k" "m = Suc k"
      by auto
    from Cons.IH [OF k(1)] k(2) show ?thesis by simp
  qed
qed

lemma Index_append: "\<exists>m. Index (a @ sub @ b) sub = Some m"
proof (induction a)
  case Nil
  have "take (length sub) (sub @ b) = sub" by simp
  then show ?case by (cases "sub @ b") (auto simp del: take_append)
next
  case (Cons x a)
  then show ?case by auto
qed

lemma Contains_iff: "Contains s sub \<longleftrightarrow> (\<exists>a b. s = a @ sub @ b)"
proof
  assume "Contains s sub"
  then obtain m where "Index s sub = Some m"
    by (auto simp: Contains_def)
  then have "s = take m s @ sub @ drop (m + length sub) s"
    by (rule Index_decompose)
  then show "\<exists>a b. s = a @ sub @ b" by blast
next
  assume "\<exists>a b. s = a @ sub @ b"
  then show "Contains s sub"
    using Index_append by (auto simp: Contains_def)
qed

lemma Contains_Cons: "\<not> Contains (x # a) sub \<Longrightarrow> \<not> Contains a sub"
  by (auto simp: Contains_def split: if_splits)

lemma Index_first_pair:
  assumes "c \<noteq> d" and "\<not> Contains a [c, d]"
  shows "Index (a @ [c, d] @ b) [c, d] = Some (length a)"
  using assms(2)
proof (induction a)
  case Nil
  show ?case by simp
next
  case (Cons x a)
  from Cons.prems have nc: "\<not> Contains a [c, d]"
    by (rule Contains_Cons)
  from Cons.prems have "take 2 (x # a) \<noteq> [c, d]"
    by (auto simp: Contains_def split: if_splits)
  with assms(1) have "take 2 ((x # a) @ [c, d] @ b) \<noteq> [c, d]"
    by (cases a) auto
  with Cons.IH [OF nc] show ?case by simp
qed

lemma Split_None: "sep \<noteq> [] \<Longrightarrow> \<not> Contains s sep \<Longrightarrow> Split s sep = [s]"
  by (subst Split.simps) (simp add: Contains_def)

lemma Split_Some:
  "sep \<noteq> [] \<Longrightarrow> Index s sep = Some m \<Longrightarrow>
   Split s sep = take m s # Split (drop (m + length sep) s) sep"
  by (subst Split.simps) simp

lemma Split_first_pair:
  assumes "c \<noteq> d" and "\<not> Contains a [c, d]"
  shows "Split (a @ [c, d] @ b) [c, d] = a # Split b [c, d]"
proof -
  have "Index (a @ [c, d] @ b) [c, d] = Some (length a)"
    using assms by (rule Index_first_pair)
  then have "Split (a @ [c, d] @ b) [c, d] =
      take (length a) (a @ [c, d] @ b) # Split (drop (length a + length [c, d]) (a @ [c, d] @ b)) [c, d]"
    by (intro Split_Some) simp_all
  then show ?thesis by simp
qed

lemma Split_nonempty: "Split s sep \<noteq> []" if "sep \<noteq> []"
  using that by (subst Split.simps) (simp split: option.splits)

lemma length_Split_ge2:
  assumes "sep \<noteq> []"
  shows "Contains s sep \<longleftrightarrow> 2 \<le> length (Split s sep)"
proof (cases "Index s sep")
  case None
  with assms show ?thesis
    by (simp add: Split_None Contains_def)
next
  case (Some m)
  have "Split (drop (m + length sep) s) sep \<noteq> []"
    using assms by (rule Split_nonempty)
  then have "1 \<le> length (Split (drop (m + length sep) s) sep)"
    by (cases "Split (drop (m + length sep) s) sep") simp_all
  with Some assms show ?thesis
    by (simp add: Split_Some Contains_def)
qed


lemma index_Inr_iff:
  "index xs i = Inr x \<longleftrightarrow> 0 \<le> i \<and> i < int (length xs) \<and> x = xs ! nat i"
  by (auto simp: index_def)

lemma index_Inl_iff:
  "index xs i = Inl e \<longleftrightarrow> \<not> (0 \<le> i \<and> i < int (length xs)) \<and> e = IndexOutOfRange i (length xs)"
  by (auto simp: index_def)

lemma index_nat [simp]: "j < length xs \<Longrightarrow> index xs (int j) = Inr (xs ! j)"
  by (simp add: index_def)

lemma index_second:
  "index xs 1 = (if 2 \<le> length xs then Inr (xs ! 1) else Inl (IndexOutOfRange 1 (length xs)))"
  by (auto simp: index_def)

lemma GetFrame_resolves: "resolves r f \<longleftrightarrow> (\<exists>symb. GetFrame r f = Inr symb)"
  by (auto simp: resolves_def GetFrame_def index_Inr_iff index_Inl_iff index_second
                length_Split_ge2 split: sum.splits)

lemma hasFrame_Cons:
  "hasFrame r (f # rest) s =
     (case GetFrame r f of
        Inl e \<Rightarrow> Inl e
      | Inr symb \<Rightarrow> if Contains symb s then Inr True else hasFrame r rest s)"
  by (simp add: GetFrame_def split: sum.splits)

declare hasFrame.simps(2) [simp del]

lemma hasFrame_resolved:
  "\<forall>f\<in>set fs. resolves r f \<Longrightarrow>
   hasFrame r fs s = Inr (\<exists>f\<in>set fs. \<exists>symb. GetFrame r f = Inr symb \<and> Contains symb s)"
proof (induction fs)
  case Nil
  show ?case by simp
next
  case (Cons f fs)
  from Cons.prems obtain symb where "GetFrame r f = Inr symb"
    by (auto simp: GetFrame_resolves)
  with Cons show ?case
    by (auto simp: hasFrame_Cons)
qed

lemma hasFrame_first_match:
  assumes "\<forall>f\<in>set fs1. resolves r f" and "GetFrame r f = Inr symb" and "Contains symb s"
  shows "hasFrame r (fs1 @ f # fs2) s = Inr True"
  using assms(1)
proof (induction fs1)
  case Nil
  from assms(2,3) show ?case by (simp add: hasFrame_Cons)
next
  case (Cons f' fs1)
  from Cons.prems obtain symb' where "GetFrame r f' = Inr symb'"
    by (auto simp: GetFrame_resolves)
  with Cons show ?case
    by (simp add: hasFrame_Cons)
qed

lemma shouldIgnore_resolved:
  assumes "index (ProgramPoints r) i = Inr pp" and "\<forall>f\<in>set (Frames pp). resolves r f"
  shows "shouldIgnore r i ks =
     Inr (\<exists>k\<in>set ks. \<exists>f\<in>set (Frames pp). \<exists>symb. GetFrame r f = Inr symb \<and> Contains symb k)"
proof (induction ks)
  case Nil
  show ?case by simp
next
  case (Cons k ks)
  have "ProgramPointHasFrame r i k =
      Inr (\<exists>f\<in>set (Frames pp). \<exists>symb. GetFrame r f = Inr symb \<and> Contains symb k)"
    using assms by (simp add: ProgramPointHasFrame_def hasFrame_resolved)
  with Cons.IH show ?case
    by (auto split: bool.splits)
qed

subsection \<open>The filter\<close>

lemma hasFrame_True_split:
  "hasFrame r fs k = Inr True \<Longrightarrow>
   \<exists>fs1 f fs2 symb. fs = fs1 @ f # fs2 \<and> list_all (resolves r) fs1 \<and>
      GetFrame r f = Inr symb \<and> Contains symb k"
proof (induction fs)
  case Nil
  then show ?case by simp
next
  case (Cons f fs)
  from Cons.prems obtain symb where symb: "GetFrame r f = Inr symb"
    by (auto simp: hasFrame_Cons split: sum.splits)
  show ?case
  proof (cases "Contains symb k")
    case True
    with symb have "f # fs = [] @ f # fs \<and> list_all (resolves r) [] \<and>
        GetFrame r f = Inr symb \<and> Contains symb k"
      by simp
    then show ?thesis by blast
  next
    case False
    with Cons.prems symb have "hasFrame r fs k = Inr True"
      by (simp add: hasFrame_Cons)
    from Cons.IH [OF this] obtain fs1 f' fs2 symb' where split: "fs = fs1 @ f' # fs2"
      "list_all (resolves r) fs1" "GetFrame r f' = Inr symb'" "Contains symb' k"
      by blast
    from symb have "resolves r f"
      by (auto simp: GetFrame_resolves)
    with split have "f # fs = (f # fs1) @ f' # fs2 \<and> list_all (resolves r) (f # fs1) \<and>
        GetFrame r f' = Inr symb' \<and> Contains symb' k"
      by simp
    then show ?thesis by blast
  qed
qed

lemma hasFrame_False_resolves:
  "hasFrame r fs k = Inr False \<Longrightarrow> list_all (resolves r) fs"
proof (induction fs)
  case Nil
  show ?case by simp
next
  case (Cons f fs)
  from Cons.prems obtain symb where symb: "GetFrame r f = Inr symb"
    by (auto simp: hasFrame_Cons split: sum.splits)
  then have "resolves r f"
    by (auto simp: GetFrame_resolves)
  with Cons symb show ?case
    by (simp add: hasFrame_Cons split: if_splits)
qed

lemma shouldIgnore_True_split:
  "shouldIgnore r i ks = Inr True \<Longrightarrow>
   \<exists>pp ks1 k ks2 fs1 f fs2 a b.
      index (ProgramPoints r) i = Inr pp \<and> ks = ks1 @ k # ks2 \<and>
      Frames pp = fs1 @ f # fs2 \<and> list_all (resolves r) fs1 \<and>
      GetFrame r f = Inr (a @ k @ b) \<and>
      (ks1 = [] \<or> list_all (resolves r) (Frames pp))"
proof (induction ks)
  case Nil
  then show ?case by simp
next
  case (Cons k ks)
  from Cons.prems obtain pp v where pp: "index (ProgramPoints r) i = Inr pp"
    and v: "hasFrame r (Frames pp) k = Inr v"
    by (auto simp: ProgramPointHasFrame_def split: sum.splits)
  show ?case
  proof (cases v)
    case True
    with v have "hasFrame r (Frames pp) k = Inr True"
      by simp
    then obtain fs1 f fs2 symb where "Frames pp = fs1 @ f # fs2" "list_all (resolves r) fs1"
      "GetFrame r f = Inr symb" "Contains symb k"
      by (blast dest: hasFrame_True_split)
    moreover then obtain a b where "symb = a @ k @ b"
      by (auto simp: Contains_iff)
    ultimately have "index (ProgramPoints r) i = Inr pp \<and> k # ks = [] @ k # ks \<and>
      Frames pp = fs1 @ f # fs2 \<and> list_all (resolves r) fs1 \<and>
      GetFrame r f = Inr (a @ k @ b) \<and> ([] = [] \<or> list_all (resolves r) (Frames pp))"
      using pp by simp
    then show ?thesis by blast
  next
    case False
    with v have "hasFrame r (Frames pp) k = Inr False"
      by simp
    then have all: "list_all (resolves r) (Frames pp)"
      by (rule hasFrame_False_resolves)
    from False v pp Cons.prems have "shouldIgnore r i ks = Inr True"
      by (simp add: ProgramPointHasFrame_def)
    from Cons.IH [OF this] obtain pp' ks1 k' ks2 fs1 f fs2 a b where
      "index (ProgramPoints r) i = Inr pp'" "ks = ks1 @ k' # ks2"
      "Frames pp' = fs1 @ f # fs2" "list_all (resolves r) fs1"
      "GetFrame r f = Inr (a @ k' @ b)"
      by blast
    with pp all have "index (ProgramPoints r) i = Inr pp \<and> k # ks = (k # ks1) @ k' # ks2 \<and>
      Frames pp = fs1 @ f # fs2 \<and> list_all (resolves r) fs1 \<and>
      GetFrame r f = Inr (a @ k' @ b) \<and> (k # ks1 = [] \<or> list_all (resolves r) (Frames pp))"
      by simp
    then show ?thesis by blast
  qed
qed

lemma shouldIgnore_True_found:
  assumes "index (ProgramPoints r) i = Inr pp" and "ks = ks1 @ k # ks2"
    and "Frames pp = fs1 @ f # fs2" and "list_all (resolves r) fs1"
    and "GetFrame r f = Inr (a @ k @ b)"
    and "ks1 = [] \<or> list_all (resolves r) (Frames pp)"
  shows "shouldIgnore r i ks = Inr True"
proof (cases "ks1 = []")
  case True
  have "Contains (a @ k @ b) k"
    by (auto simp: Contains_iff)
  with assms(3-5) have "hasFrame r (Frames pp) k = Inr True"
    by (simp add: hasFrame_first_match list_all_iff)
  with True assms(1,2) show ?thesis
    by (simp add: ProgramPointHasFrame_def)
next
  case False
  with assms(6) have "\<forall>f\<in>set (Frames pp). resolves r f"
    by (simp add: list_all_iff)
  note eq = shouldIgnore_resolved [OF assms(1) this, of ks]
  have "Contains (a @ k @ b) k"
    by (auto simp: Contains_iff)
  with assms(2,3,5) have "\<exists>k\<in>set ks. \<exists>f\<in>set (Frames pp). \<exists>symb.
      GetFrame r f = Inr symb \<and> Contains symb k"
    by auto
  with eq show ?thesis by simp
qed

text \<open>
  C1. For every report, index and keyword list, \<open>shouldIgnore\<close> returns true exactly when
  the search in list order finds a keyword inside a resolved frame of the program point:
  there are a keyword \<open>k\<close> of the list and a frame \<open>f\<close> of the program point that resolves
  to a string containing \<open>k\<close>, the frames before \<open>f\<close> resolve, and, unless \<open>k\<close> is the
  first keyword, all the frames of the program point resolve (the keywords before \<open>k\<close>
  were tried on every frame). In particular a match of the first keyword ends the search:
  the frames after it are not resolved. When all the frames of the program point resolve,
  as the data model requires, \<open>shouldIgnore\<close> returns whether some keyword of the list is
  a substring of some resolved frame.
\<close>

theorem shouldIgnore_iff_keyword_in_frame:
  "(shouldIgnore r i ks = Inr True \<longleftrightarrow>
      (\<exists>pp ks1 k ks2 fs1 f fs2 a b.
         index (ProgramPoints r) i = Inr pp \<and> ks = ks1 @ k # ks2 \<and>
         Frames pp = fs1 @ f # fs2 \<and> list_all (resolves r) fs1 \<and>
         GetFrame r f = Inr (a @ k @ b) \<and>
         (ks1 = [] \<or> list_all (resolves r) (Frames pp)))) \<and>
   (index (ProgramPoints r) i = Inr pp \<and> list_all (resolves r) (Frames pp) \<longrightarrow>
      shouldIgnore r i ks =
        Inr (\<exists>k\<in>set ks. \<exists>f\<in>set (Frames pp). \<exists>a b. GetFrame r f = Inr (a @ k @ b)))"
proof (intro conjI impI iffI)
  assume "shouldIgnore r i ks = Inr True"
  then show "\<exists>pp ks1 k ks2 fs1 f fs2 a b.
         index (ProgramPoints r) i = Inr pp \<and> ks = ks1 @ k # ks2 \<and>
         Frames pp = fs1 @ f # fs2 \<and> list_all (resolves r) fs1 \<and>
         GetFrame r f = Inr (a @ k @ b) \<and>
         (ks1 = [] \<or> list_all (resolves r) (Frames pp))"
    by (rule shouldIgnore_True_split)
next
  assume "\<exists>pp ks1 k ks2 fs1 f fs2 a b.
         index (ProgramPoints r) i = Inr pp \<and> ks = ks1 @ k # ks2 \<and>
         Frames pp = fs1 @ f # fs2 \<and> list_all (resolves r) fs1 \<and>
         GetFrame r f = Inr (a @ k @ b) \<and>
         (ks1 = [] \<or> list_all (resolves r) (Frames pp))"
  then show "shouldIgnore r i ks = Inr True"
    by (blast intro: shouldIgnore_True_found)
next
  assume h: "index (ProgramPoints r) i = Inr pp \<and> list_all (resolves r) (Frames pp)"
  have "(\<exists>k\<in>set ks. \<exists>f\<in>set (Frames pp). \<exists>symb. GetFrame r f = Inr symb \<and> Contains symb k) =
        (\<exists>k\<in>set ks. \<exists>f\<in>set (Frames pp). \<exists>a b. GetFrame r f = Inr (a @ k @ b))"
    unfolding Contains_iff by blast
  with h show "shouldIgnore r i ks =
      Inr (\<exists>k\<in>set ks. \<exists>f\<in>set (Frames pp). \<exists>a b. GetFrame r f = Inr (a @ k @ b))"
    by (simp add: shouldIgnore_resolved list_all_iff)
qed

theorem shouldIgnore_iff_keyword_in_frame_witness:
  "index (ProgramPoints exampleReport) 0 = Inr examplePoint \<and>
   list_all (resolves exampleReport) (Frames examplePoint) \<and>
   shouldIgnore exampleReport 0 [''free'', ''lloc''] = Inr True \<and>
   (\<exists>k\<in>set [''free'', ''lloc'']. \<exists>f\<in>set (Frames examplePoint). \<exists>a b.
      GetFrame exampleReport f = Inr (a @ k @ b)) \<and>
   shouldIgnore exampleReport 0 [''free'', ''Alloc''] = Inr False \<and>
   index (ProgramPoints malformedReport) 0 = Inr examplePoint \<and>
   Frames examplePoint = [] @ 0 # [1] \<and> \<not> resolves malformedReport 1 \<and>
   GetFrame malformedReport 0 = Inr ([] @ ''main'' @ []) \<and>
   shouldIgnore malformedReport 0 [''main'', ''lloc''] = Inr True"
proof -
  have h1: "index (ProgramPoints exampleReport) 0 = Inr examplePoint"
    by code_simp
  have h2: "list_all (resolves exampleReport) (Frames examplePoint)"
    by code_simp
  have v1: "shouldIgnore exampleReport 0 [''free'', ''lloc''] = Inr True"
    by code_simp
  have v2: "shouldIgnore exampleReport 0 [''free'', ''Alloc''] = Inr False"
    by code_simp
  have h3: "index (ProgramPoints malformedReport) 0 = Inr examplePoint"
    by code_simp
  have h4: "Frames examplePoint = [] @ 0 # [1]"
    by code_simp
  have h5: "\<not> resolves malformedReport 1"
    by code_simp
  have h6: "GetFrame malformedReport 0 = Inr ([] @ ''main'' @ [])"
    by code_simp
  have h7: "list_all (resolves malformedReport) []"
    by simp
  have h8: "[''main'', ''lloc''] = [] @ ''main'' # [''lloc'']"
    by simp
  have v3: "shouldIgnore malformedReport 0 [''main'', ''lloc''] = Inr True"
    using shouldIgnore_iff_keyword_in_frame
      [where r = malformedReport and i = 0 and ks = "[''main'', ''lloc'']", THEN conjunct1]
      h3 h4 h6 h7 h8
    by blast
  have "shouldIgnore exampleReport 0 [''free'', ''lloc''] =
      Inr (\<exists>k\<in>set [''free'', ''lloc'']. \<exists>f\<in>set (Frames examplePoint). \<exists>a b.
             GetFrame exampleReport f = Inr (a @ k @ b))"
    using shouldIgnore_iff_keyword_in_frame
      [where r = exampleReport and i = 0 and pp = examplePoint
         and ks = "[''free'', ''lloc'']", THEN conjunct2] h1 h2
    by blast
  with v1 have "\<exists>k\<in>set [''free'', ''lloc'']. \<exists>f\<in>set (Frames examplePoint). \<exists>a b.
      GetFrame exampleReport f = Inr (a @ k @ b)"
    by (simp only: sum.inject simp_thms)
  with h1 h2 v1 v2 h3 h4 h5 h6 v3 show ?thesis
    by blast
qed

text \<open>
  C10. On a program point whose frames all resolve, \<open>shouldIgnore\<close> is monotone in the
  keyword list: when every keyword of \<open>K\<close> is in \<open>K'\<close>, a program point ignored with
  \<open>K\<close> is ignored with \<open>K'\<close>, and one that is kept with \<open>K'\<close> is kept with \<open>K\<close>.
\<close>

theorem shouldIgnore_mono:
  assumes "index (ProgramPoints r) i = Inr pp" and "list_all (resolves r) (Frames pp)"
    and "set K \<subseteq> set K'"
  shows "(shouldIgnore r i K = Inr True \<longrightarrow> shouldIgnore r i K' = Inr True) \<and>
         (shouldIgnore r i K' = Inr False \<longrightarrow> shouldIgnore r i K = Inr False)"
proof -
  from assms(2) have res: "\<forall>f\<in>set (Frames pp). resolves r f"
    by (simp add: list_all_iff)
  note eq = shouldIgnore_resolved [OF assms(1) res]
  from assms(3) show ?thesis
    unfolding eq [of K] eq [of K'] by auto
qed

theorem shouldIgnore_mono_witness:
  "index (ProgramPoints exampleReport) 0 = Inr examplePoint \<and>
   list_all (resolves exampleReport) (Frames examplePoint) \<and>
   set [''main''] \<subseteq> set [''free'', ''main''] \<and>
   shouldIgnore exampleReport 0 [''main''] = Inr True \<and>
   shouldIgnore exampleReport 0 [''free'', ''main''] = Inr True \<and>
   set [''free''] \<subseteq> set [''calloc'', ''free''] \<and>
   shouldIgnore exampleReport 0 [''calloc'', ''free''] = Inr False \<and>
   shouldIgnore exampleReport 0 [''free''] = Inr False"
proof -
  have h1: "index (ProgramPoints exampleReport) 0 = Inr examplePoint"
    by code_simp
  have h2: "list_all (resolves exampleReport) (Frames examplePoint)"
    by code_simp
  have h3: "set [''main''] \<subseteq> set [''free'', ''main'']"
    by simp
  have h4: "shouldIgnore exampleReport 0 [''main''] = Inr True"
    by code_simp
  have h5: "set [''free''] \<subseteq> set [''calloc'', ''free'']"
    by simp
  have h6: "shouldIgnore exampleReport 0 [''calloc'', ''free''] = Inr False"
    by code_simp
  have v1: "shouldIgnore exampleReport 0 [''free'', ''main''] = Inr True"
    using shouldIgnore_mono [OF h1 h2 h3] h4 by blast
  have v2: "shouldIgnore exampleReport 0 [''free''] = Inr False"
    using shouldIgnore_mono [OF h1 h2 h5] h6 by blast
  from h1 h2 h3 h4 h5 h6 v1 v2 show ?thesis
    by blast
qed

subsection \<open>Resolving a frame\<close>

lemma GetFrame_piece:
  assumes "index (FramesTable r) i = Inr (verb @ '': '' @ rest)" and "\<not> Contains verb '': ''"
  shows "GetFrame r i = Inr (hd (Split rest '': ''))"
proof -
  have "Split (verb @ '': '' @ rest) '': '' = verb # Split rest '': ''"
    using assms(2) by (intro Split_first_pair) simp_all
  moreover have "Split rest '': '' \<noteq> []"
    by (rule Split_nonempty) simp
  ultimately show ?thesis
    using assms(1) by (cases "Split rest '': ''") (simp_all add: GetFrame_def index_def)
qed

text \<open>
  C2, as the code has it. Let the entry be \<open>verb @ '': '' @ rest\<close> where \<open>verb\<close> holds no
  separator, so that the separator after \<open>verb\<close> is the first one of the entry. When
  \<open>rest\<close> holds no separator the frame resolves to \<open>rest\<close>, all that follows the first
  separator. When \<open>rest\<close> holds one, the frame resolves to the part of \<open>rest\<close> before
  its first separator: the piece between the first two separators of the entry.
\<close>

theorem GetFrame_up_to_next_separator:
  assumes "index (FramesTable r) i = Inr (verb @ '': '' @ rest)"
    and "\<not> Contains verb '': ''"
  shows "(\<not> Contains rest '': '' \<longrightarrow> GetFrame r i = Inr rest) \<and>
         (rest = symb @ '': '' @ later \<and> \<not> Contains symb '': '' \<longrightarrow> GetFrame r i = Inr symb)"
proof (intro conjI impI)
  assume "\<not> Contains rest '': ''"
  then have "Split rest '': '' = [rest]"
    by (intro Split_None) simp_all
  with GetFrame_piece [OF assms] show "GetFrame r i = Inr rest"
    by simp
next
  assume h: "rest = symb @ '': '' @ later \<and> \<not> Contains symb '': ''"
  then have "Split (symb @ '': '' @ later) '': '' = symb # Split later '': ''"
    by (intro Split_first_pair) simp_all
  with h GetFrame_piece [OF assms] show "GetFrame r i = Inr symb"
    by simp
qed

theorem GetFrame_up_to_next_separator_witness:
  "index (FramesTable exampleReport) 1 = Inr (''at'' @ '': '' @ ''alloc'') \<and>
   \<not> Contains ''at'' '': '' \<and> \<not> Contains ''alloc'' '': '' \<and>
   GetFrame exampleReport 1 = Inr ''alloc'' \<and>
   index (FramesTable twiceReport) 0 = Inr (''at'' @ '': '' @ ''foo: bar'') \<and>
   ''foo: bar'' = ''foo'' @ '': '' @ ''bar'' \<and> \<not> Contains ''foo'' '': '' \<and>
   GetFrame twiceReport 0 = Inr ''foo''"
proof -
  have h1: "index (FramesTable exampleReport) 1 = Inr (''at'' @ '': '' @ ''alloc'')"
    by code_simp
  have h2: "\<not> Contains ''at'' '': ''"
    by code_simp
  have h3: "\<not> Contains ''alloc'' '': ''"
    by code_simp
  have h4: "index (FramesTable twiceReport) 0 = Inr (''at'' @ '': '' @ ''foo: bar'')"
    by code_simp
  have h5: "''foo: bar'' = ''foo'' @ '': '' @ ''bar''"
    by simp
  have h6: "\<not> Contains ''foo'' '': ''"
    by code_simp
  have v1: "GetFrame exampleReport 1 = Inr ''alloc''"
    using GetFrame_up_to_next_separator [OF h1 h2] h3 by blast
  have v2: "GetFrame twiceReport 0 = Inr ''foo''"
    using GetFrame_up_to_next_separator [OF h4 h2, of "''foo''" "''bar''"] h5 h6 by blast
  from h1 h2 h3 h4 h5 h6 v1 v2 show ?thesis
    by blast
qed

text \<open>
  C2 as stated fails: the entry \<^verbatim>\<open>at: foo: bar\<close> has its first separator after
  \<^verbatim>\<open>at\<close>, and it resolves to \<^verbatim>\<open>foo\<close>, not to \<^verbatim>\<open>foo: bar\<close>.
\<close>

theorem GetFrame_rest_counterexample:
  "index (FramesTable twiceReport) 0 = Inr (''at'' @ '': '' @ ''foo: bar'') \<and>
   Index (''at'' @ '': '' @ ''foo: bar'') '': '' = Some (length ''at'') \<and>
   GetFrame twiceReport 0 = Inr ''foo'' \<and>
   GetFrame twiceReport 0 \<noteq> Inr ''foo: bar''"
  by code_simp

subsection \<open>Printing\<close>

lemma andThen_ok [simp]: "andThen (out, None) b = (out @ fst b, snd b)"
  by (simp add: andThen_def)

lemma andThen_failed [simp]: "andThen (out, Some e) b = (out, Some e)"
  by (simp add: andThen_def)

lemma andThen_skip [simp]: "andThen skip b = b" "andThen a skip = a"
  by (cases a; simp add: andThen_def skip_def split: option.splits)+

lemma andThen_Print: "andThen (Print s) b = (s # fst b, snd b)"
  by (simp add: Print_def)

lemma snd_andThen: "snd (andThen a b) = (case snd a of Some e \<Rightarrow> Some e | None \<Rightarrow> snd b)"
  by (simp add: andThen_def split: option.splits)

lemma snd_Print [simp]: "snd (Print s) = None" and fst_Print [simp]: "fst (Print s) = [s]"
  by (simp_all add: Print_def)

lemma snd_skip [simp]: "snd skip = None" and fst_skip [simp]: "fst skip = []"
  by (simp_all add: skip_def)


lemma printFrames_ok:
  "list_all (resolves r) fs \<Longrightarrow> j \<le> length fs \<Longrightarrow> snd (printFrames html r fs j) = None"
proof (induction j)
  case 0
  show ?case by simp
next
  case (Suc j)
  then have "resolves r (fs ! j)"
    by (simp add: list_all_length)
  then obtain symb where "GetFrame r (fs ! j) = Inr symb"
    by (auto simp: GetFrame_resolves)
  with Suc show ?case
    by (simp add: andThen_Print)
qed

lemma printFrames_ok_resolves:
  "snd (printFrames html r fs j) = None \<Longrightarrow> j \<le> length fs \<Longrightarrow> k < j \<Longrightarrow> resolves r (fs ! k)"
proof (induction j)
  case 0
  then show ?case by simp
next
  case (Suc j)
  then have j: "j < length fs" by simp
  from Suc.prems(1) j obtain symb where symb: "GetFrame r (fs ! j) = Inr symb"
    by (auto split: sum.splits)
  with Suc.prems(1) j have "snd (printFrames html r fs j) = None"
    by (simp add: andThen_Print)
  with Suc.IH j have "k < j \<Longrightarrow> resolves r (fs ! k)"
    by simp
  moreover from symb have "resolves r (fs ! j)"
    by (auto simp: GetFrame_resolves)
  ultimately show ?case
    using Suc.prems(3) by (cases "k = j") auto
qed

lemma snd_printAllocation:
  "snd (printAllocation html r n pp) = snd (printFrames html r (Frames pp) (length (Frames pp)))"
  by (simp add: printAllocation_def snd_andThen split: option.splits)

lemma printAllocation_ok:
  "list_all (resolves r) (Frames pp) \<Longrightarrow> snd (printAllocation html r n pp) = None"
  by (simp add: snd_printAllocation printFrames_ok)

lemma printAllocation_ok_resolves:
  assumes "snd (printAllocation html r n pp) = None"
  shows "list_all (resolves r) (Frames pp)"
  unfolding list_all_length
proof (intro allI impI)
  fix k
  assume "k < length (Frames pp)"
  with assms show "resolves r (Frames pp ! k)"
    by (intro printFrames_ok_resolves [where j = "length (Frames pp)"])
       (simp_all add: snd_printAllocation)
qed

subsection \<open>The loop over the program points\<close>

lemma valid_resolves:
  "valid r \<Longrightarrow> i < length (ProgramPoints r) \<Longrightarrow> list_all (resolves r) (Frames (ProgramPoints r ! i))"
  by (simp add: valid_def list_all_length)

lemma shouldIgnore_valid:
  assumes "valid r" and "i < length (ProgramPoints r)"
  shows "\<exists>b. shouldIgnore r (int i) ks = Inr b"
proof -
  from assms have "\<forall>f\<in>set (Frames (ProgramPoints r ! i)). resolves r f"
    by (simp add: valid_resolves flip: list_all_iff)
  moreover from assms(2) have "index (ProgramPoints r) (int i) = Inr (ProgramPoints r ! i)"
    by simp
  ultimately show ?thesis
    by (simp add: shouldIgnore_resolved)
qed

lemma printProgramPoints_valid:
  assumes "valid r"
  shows "i \<le> length (ProgramPoints r) \<Longrightarrow>
    printProgramPoints html r ks i n (drop i (ProgramPoints r)) =
      (concat (map (\<lambda>(k, pp). fst (printAllocation html r (n + int k) pp))
         (enumerate 0 (map snd (filter (\<lambda>(j, pp). shouldIgnore r (int j) ks = Inr False)
            (enumerate i (drop i (ProgramPoints r))))))),
       None)"
proof (induction "length (ProgramPoints r) - i" arbitrary: i n)
  case 0
  then show ?case by (simp add: skip_def)
next
  case (Suc d)
  let ?P = "ProgramPoints r"
  from Suc.hyps(2) have i: "i < length ?P" by simp
  then have drop: "drop i ?P = ?P ! i # drop (Suc i) ?P"
    by (simp add: Cons_nth_drop_Suc)
  from Suc.hyps(2) have d: "d = length ?P - Suc i" by simp
  from i have le: "Suc i \<le> length ?P" by simp
  note IH = Suc.hyps(1) [OF d le]
  from assms i obtain b where b: "shouldIgnore r (int i) ks = Inr b"
    using shouldIgnore_valid by blast
  show ?case
  proof (cases b)
    case True
    with b IH [of n] show ?thesis
      by (simp add: drop)
  next
    case False
    from assms i have "snd (printAllocation html r n (?P ! i)) = None"
      by (simp add: valid_resolves printAllocation_ok)
    then obtain out where out: "printAllocation html r n (?P ! i) = (out, None)"
      by (cases "printAllocation html r n (?P ! i)") simp
    have shift: "map (\<lambda>(k, pp). fst (printAllocation html r (n + 1 + int k) pp)) (enumerate 0 xs) =
          map (\<lambda>(k, pp). fst (printAllocation html r (n + int k) pp)) (enumerate (Suc 0) xs)" for xs
      by (simp add: enumerate_Suc_eq [of 0] case_prod_beta add_ac)
    from False b out IH [of "n + 1"] show ?thesis
      by (simp add: drop shift)
  qed
qed

lemma shouldIgnore_Nil_filter:
  "filter (\<lambda>(j, pp). shouldIgnore r (int j) [] = Inr False) xs = xs"
  by (induction xs) auto


lemma printHeader_ok [simp]: "snd (printHeader html r) = None"
  by (simp add: printHeader_def snd_andThen)

lemma render_eq:
  "render html r ks =
     andThen (fst (printHeader html r), None)
       (andThen (printProgramPoints html r ks 0 1 (ProgramPoints r))
          (if html then [htmlFooter] else [], None))"
proof -
  have "printHeader html r = (fst (printHeader html r), None)"
    by (cases "printHeader html r") (use printHeader_ok [of html r] in simp)
  then show ?thesis
    by (simp add: render_def Print_def skip_def)
qed

text \<open>
  C3. For a valid report, what is printed is the header, then one block per program point
  that is not ignored, in the order of the report and each once, then the closing tags in
  HTML mode. The blocks carry the counters 1, 2, ..., N where N is the number of program
  points that are not ignored; an ignored one prints nothing and takes no number. Each
  block is printed to its end. With the empty ignore list there is a block for every
  program point.
\<close>

theorem render_kept_in_order:
  assumes "valid r"
  shows "render html r ks =
      (fst (printHeader html r) @
       concat (map (\<lambda>(n, pp). fst (printAllocation html r (int n) pp))
         (zip [1..<Suc (length (filter (\<lambda>(j, pp). shouldIgnore r (int j) ks = Inr False)
                                    (enumerate 0 (ProgramPoints r))))]
              (map snd (filter (\<lambda>(j, pp). shouldIgnore r (int j) ks = Inr False)
                          (enumerate 0 (ProgramPoints r)))))) @
       (if html then [htmlFooter] else []),
       None) \<and>
    list_all (\<lambda>pp. \<forall>n. snd (printAllocation html r n pp) = None) (ProgramPoints r) \<and>
    render html r [] =
      (fst (printHeader html r) @
       concat (map (\<lambda>(n, pp). fst (printAllocation html r (int n) pp))
         (zip [1..<Suc (length (ProgramPoints r))] (ProgramPoints r))) @
       (if html then [htmlFooter] else []),
       None)"
proof (intro conjI)
  let ?kept = "\<lambda>ks. map snd (filter (\<lambda>(j, pp). shouldIgnore r (int j) ks = Inr False)
                          (enumerate 0 (ProgramPoints r)))"
  have eq: "printProgramPoints html r ks 0 1 (ProgramPoints r) =
      (concat (map (\<lambda>(n, pp). fst (printAllocation html r (int n) pp))
         (zip [1..<Suc (length (?kept ks))] (?kept ks))), None)" for ks
  proof -
    have "map (\<lambda>(k, pp). fst (printAllocation html r (1 + int k) pp)) (enumerate 0 xs) =
          map (\<lambda>(n, pp). fst (printAllocation html r (int n) pp)) (enumerate (Suc 0) xs)" for xs
      by (simp add: enumerate_Suc_eq [of 0] case_prod_beta add_ac)
    moreover have "enumerate (Suc 0) xs = zip [1..<Suc (length xs)] xs" for xs :: "ProgramPoint list"
      by (simp add: enumerate_eq_zip)
    ultimately show ?thesis
      using printProgramPoints_valid [OF assms, of 0 html ks 1] by simp
  qed
  from eq [of ks] show "render html r ks =
      (fst (printHeader html r) @
       concat (map (\<lambda>(n, pp). fst (printAllocation html r (int n) pp))
         (zip [1..<Suc (length (filter (\<lambda>(j, pp). shouldIgnore r (int j) ks = Inr False)
                                    (enumerate 0 (ProgramPoints r))))]
              (map snd (filter (\<lambda>(j, pp). shouldIgnore r (int j) ks = Inr False)
                          (enumerate 0 (ProgramPoints r)))))) @
       (if html then [htmlFooter] else []),
       None)"
    by (simp add: render_eq)
  from assms show "list_all (\<lambda>pp. \<forall>n. snd (printAllocation html r n pp) = None) (ProgramPoints r)"
    by (simp add: valid_def list_all_iff printAllocation_ok)
  from eq [of "[]"] show "render html r [] =
      (fst (printHeader html r) @
       concat (map (\<lambda>(n, pp). fst (printAllocation html r (int n) pp))
         (zip [1..<Suc (length (ProgramPoints r))] (ProgramPoints r))) @
       (if html then [htmlFooter] else []),
       None)"
    by (simp only: shouldIgnore_Nil_filter render_eq) simp
qed

theorem render_kept_in_order_witness:
  "valid threeReport \<and>
   render False threeReport [''free''] =
     ([''Command: '' @ newline, ''PID: 0'' @ newline, ''Mode: '' @ newline,
       ''t-end: 0 '' @ newline,
       newline @ ''==== Allocation #1 ===='' @ newline, ''100 bytes in 1 blocks'' @ newline,
       ''main'' @ newline, ''alloc'' @ newline,
       newline @ ''==== Allocation #2 ===='' @ newline, ''16 bytes in 1 blocks'' @ newline,
       ''main'' @ newline],
      None) \<and>
   map snd (filter (\<lambda>(j, pp). shouldIgnore threeReport (int j) [''free''] = Inr False)
              (enumerate 0 (ProgramPoints threeReport))) =
     [ProgramPoints threeReport ! 0, ProgramPoints threeReport ! 2]"
proof -
  have h: "valid threeReport"
    by code_simp
  have kept: "map snd (filter (\<lambda>(j, pp). shouldIgnore threeReport (int j) [''free''] = Inr False)
              (enumerate 0 (ProgramPoints threeReport))) =
     [ProgramPoints threeReport ! 0, ProgramPoints threeReport ! 2]"
    by code_simp
  have hdr: "fst (printHeader False threeReport) =
     [''Command: '' @ newline, ''PID: 0'' @ newline, ''Mode: '' @ newline, ''t-end: 0 '' @ newline]"
    by code_simp
  have a1: "fst (printAllocation False threeReport (int 1) (ProgramPoints threeReport ! 0)) =
     [newline @ ''==== Allocation #1 ===='' @ newline, ''100 bytes in 1 blocks'' @ newline,
       ''main'' @ newline, ''alloc'' @ newline]"
    by code_simp
  have a2: "fst (printAllocation False threeReport (int 2) (ProgramPoints threeReport ! 2)) =
     [newline @ ''==== Allocation #2 ===='' @ newline, ''16 bytes in 1 blocks'' @ newline,
       ''main'' @ newline]"
    by code_simp
  have len: "length (filter (\<lambda>(j, pp). shouldIgnore threeReport (int j) [''free''] = Inr False)
              (enumerate 0 (ProgramPoints threeReport))) = 2"
    using arg_cong [OF kept, of length] by simp
  have up: "[1..<Suc 2] = [1, 2]"
    by (simp add: upt_rec)
  note render_kept_in_order [OF h, of False "[''free'']", THEN conjunct1]
  then have "render False threeReport [''free''] =
     ([''Command: '' @ newline, ''PID: 0'' @ newline, ''Mode: '' @ newline,
       ''t-end: 0 '' @ newline,
       newline @ ''==== Allocation #1 ===='' @ newline, ''100 bytes in 1 blocks'' @ newline,
       ''main'' @ newline, ''alloc'' @ newline,
       newline @ ''==== Allocation #2 ===='' @ newline, ''16 bytes in 1 blocks'' @ newline,
       ''main'' @ newline],
      None)"
    unfolding len kept up hdr
    by (simp only: zip_Cons_Cons zip_Nil list.map prod.case concat.simps a1 a2
          if_False append_Nil2 append_Cons append_Nil)
  with h kept show ?thesis
    by blast
qed

subsection \<open>The frames of a program point\<close>














subsection \<open>Failures while printing\<close>

lemma printProgramPoints_ok:
  "snd (printProgramPoints html r ks i n pps) = None \<Longrightarrow> k < length pps \<Longrightarrow>
   shouldIgnore r (int (i + k)) ks = Inr True \<or>
   shouldIgnore r (int (i + k)) ks = Inr False \<and> list_all (resolves r) (Frames (pps ! k))"
proof (induction pps arbitrary: i n k)
  case Nil
  then show ?case by simp
next
  case (Cons pp pps)
  from Cons.prems(1) obtain b where b: "shouldIgnore r (int i) ks = Inr b"
    by (auto split: sum.splits)
  show ?case
  proof (cases b)
    case True
    with b Cons.prems(1) have rest: "snd (printProgramPoints html r ks (Suc i) n pps) = None"
      by simp
    show ?thesis
    proof (cases k)
      case 0
      with True b show ?thesis by simp
    next
      case (Suc k')
      with Cons.prems(2) have "k' < length pps" by simp
      from Cons.IH [OF rest this] Suc show ?thesis by simp
    qed
  next
    case False
    with b Cons.prems(1) have site: "snd (printAllocation html r n pp) = None"
      and rest: "snd (printProgramPoints html r ks (Suc i) (n + 1) pps) = None"
      by (auto simp: snd_andThen split: option.splits)
    show ?thesis
    proof (cases k)
      case 0
      with False b site show ?thesis
        by (simp add: printAllocation_ok_resolves)
    next
      case (Suc k')
      with Cons.prems(2) have "k' < length pps" by simp
      from Cons.IH [OF rest this] Suc show ?thesis by simp
    qed
  qed
qed

lemma snd_render:
  "snd (render html r ks) = snd (printProgramPoints html r ks 0 1 (ProgramPoints r))"
  by (simp add: render_eq snd_andThen split: option.splits)

text \<open>
  C7, as the code has it. Resolving a frame fails with the bounds-check panic in both
  cases: with the index and the length of the frame table when the index is out of
  bounds, and with index 1 and length 1 when the entry has no separator, since the split
  then has a single piece. Nothing recovers from the failure. When it happens in
  \<open>shouldIgnore\<close> the loop over the program points ends with it and prints nothing
  more; when it happens while a program point is printed the loop ends with what that
  program point had printed, and the program points after it are not visited; the render
  then ends with the same failure after the header and the output of the loop, without
  the closing tags. Conversely, a render that ends without failure has decided every
  program point and resolved every frame of those it kept.
\<close>

theorem resolution_failure_aborts:
  "(\<not> (0 \<le> f \<and> f < int (length (FramesTable r))) \<longrightarrow>
      GetFrame r f = Inl (IndexOutOfRange f (length (FramesTable r)))) \<and>
   (0 \<le> f \<and> f < int (length (FramesTable r)) \<and> \<not> Contains (FramesTable r ! nat f) '': '' \<longrightarrow>
      GetFrame r f = Inl (IndexOutOfRange 1 1)) \<and>
   (shouldIgnore r (int i) ks = Inl e \<longrightarrow>
      printProgramPoints html r ks i n (pp # rest) = ([], Some e)) \<and>
   (shouldIgnore r (int i) ks = Inr False \<and> snd (printAllocation html r n pp) = Some e \<longrightarrow>
      printProgramPoints html r ks i n (pp # rest) = printAllocation html r n pp) \<and>
   (snd (printProgramPoints html r ks 0 1 (ProgramPoints r)) = Some e \<longrightarrow>
      render html r ks =
        (fst (printHeader html r) @ fst (printProgramPoints html r ks 0 1 (ProgramPoints r)),
         Some e)) \<and>
   (snd (render html r ks) = None \<and> k < length (ProgramPoints r) \<longrightarrow>
      shouldIgnore r (int k) ks = Inr True \<or>
      shouldIgnore r (int k) ks = Inr False \<and>
      list_all (resolves r) (Frames (ProgramPoints r ! k)))"
proof (intro conjI impI)
  assume "\<not> (0 \<le> f \<and> f < int (length (FramesTable r)))"
  then have "index (FramesTable r) f = Inl (IndexOutOfRange f (length (FramesTable r)))"
    by (simp add: index_Inl_iff)
  then show "GetFrame r f = Inl (IndexOutOfRange f (length (FramesTable r)))"
    by (simp add: GetFrame_def)
next
  assume "0 \<le> f \<and> f < int (length (FramesTable r)) \<and> \<not> Contains (FramesTable r ! nat f) '': ''"
  then have "index (FramesTable r) f = Inr (FramesTable r ! nat f)"
    and "Split (FramesTable r ! nat f) '': '' = [FramesTable r ! nat f]"
    by (simp_all add: index_Inr_iff Split_None)
  then show "GetFrame r f = Inl (IndexOutOfRange 1 1)"
    by (simp add: GetFrame_def index_second)
next
  assume "shouldIgnore r (int i) ks = Inl e"
  then show "printProgramPoints html r ks i n (pp # rest) = ([], Some e)"
    by simp
next
  assume "shouldIgnore r (int i) ks = Inr False \<and> snd (printAllocation html r n pp) = Some e"
  then show "printProgramPoints html r ks i n (pp # rest) = printAllocation html r n pp"
    by (simp add: andThen_def)
next
  assume "snd (printProgramPoints html r ks 0 1 (ProgramPoints r)) = Some e"
  then show "render html r ks =
        (fst (printHeader html r) @ fst (printProgramPoints html r ks 0 1 (ProgramPoints r)),
         Some e)"
    by (simp add: render_eq andThen_def)
next
  assume "snd (render html r ks) = None \<and> k < length (ProgramPoints r)"
  then have "snd (printProgramPoints html r ks 0 1 (ProgramPoints r)) = None"
    and "k < length (ProgramPoints r)"
    by (simp_all add: snd_render)
  from printProgramPoints_ok [OF this]
  show "shouldIgnore r (int k) ks = Inr True \<or>
      shouldIgnore r (int k) ks = Inr False \<and>
      list_all (resolves r) (Frames (ProgramPoints r ! k))"
    by simp
qed

theorem resolution_failure_aborts_witness:
  "\<not> (0 \<le> (2 :: int) \<and> 2 < int (length (FramesTable exampleReport))) \<and>
   GetFrame exampleReport 2 = Inl (IndexOutOfRange 2 2) \<and>
   0 \<le> (1 :: int) \<and> 1 < int (length (FramesTable malformedReport)) \<and>
   \<not> Contains (FramesTable malformedReport ! nat 1) '': '' \<and>
   GetFrame malformedReport 1 = Inl (IndexOutOfRange 1 1) \<and>
   shouldIgnore malformedReport (int 0) [''lloc''] = Inl (IndexOutOfRange 1 1) \<and>
   printProgramPoints False malformedReport [''lloc''] 0 1 (ProgramPoints malformedReport) =
     ([], Some (IndexOutOfRange 1 1)) \<and>
   shouldIgnore malformedReport (int 0) [] = Inr False \<and>
   snd (printAllocation False malformedReport 1 examplePoint) = Some (IndexOutOfRange 1 1) \<and>
   printProgramPoints False malformedReport [] 0 1 (ProgramPoints malformedReport) =
     ([newline @ ''==== Allocation #1 ===='' @ newline, ''100 bytes in 1 blocks'' @ newline],
      Some (IndexOutOfRange 1 1)) \<and>
   render False malformedReport [] =
     ([''Command: '' @ newline, ''PID: 0'' @ newline, ''Mode: '' @ newline,
       ''t-end: 0 '' @ newline,
       newline @ ''==== Allocation #1 ===='' @ newline, ''100 bytes in 1 blocks'' @ newline],
      Some (IndexOutOfRange 1 1)) \<and>
   snd (render False exampleReport []) = None \<and> 0 < length (ProgramPoints exampleReport) \<and>
   shouldIgnore exampleReport (int 0) [] = Inr False \<and>
   list_all (resolves exampleReport) (Frames (ProgramPoints exampleReport ! 0))"
proof -
  have pps: "ProgramPoints malformedReport = examplePoint # [examplePoint\<lparr>Frames := [0]\<rparr>]"
    by (simp add: malformedReport_def exampleReport_def)
  have h1: "\<not> (0 \<le> (2 :: int) \<and> 2 < int (length (FramesTable exampleReport)))"
    by code_simp
  have h2: "0 \<le> (1 :: int) \<and> 1 < int (length (FramesTable malformedReport)) \<and>
      \<not> Contains (FramesTable malformedReport ! nat 1) '': ''"
    by code_simp
  have h3: "shouldIgnore malformedReport (int 0) [''lloc''] = Inl (IndexOutOfRange 1 1)"
    by code_simp
  have h4: "shouldIgnore malformedReport (int 0) [] = Inr False \<and>
      snd (printAllocation False malformedReport 1 examplePoint) = Some (IndexOutOfRange 1 1)"
    by code_simp
  have a: "printAllocation False malformedReport 1 examplePoint =
     ([newline @ ''==== Allocation #1 ===='' @ newline, ''100 bytes in 1 blocks'' @ newline],
      Some (IndexOutOfRange 1 1))"
    by code_simp
  have hdr: "fst (printHeader False malformedReport) =
     [''Command: '' @ newline, ''PID: 0'' @ newline, ''Mode: '' @ newline, ''t-end: 0 '' @ newline]"
    by code_simp
  have h6: "snd (render False exampleReport []) = None \<and> 0 < length (ProgramPoints exampleReport)"
    by code_simp
  have len: "length (FramesTable exampleReport) = 2"
    by code_simp
  have ne: "shouldIgnore exampleReport (int 0) [] \<noteq> Inr True"
    by code_simp
  note T = resolution_failure_aborts
  from T [where r = exampleReport and f = 2] h1
  have v1: "GetFrame exampleReport 2 = Inl (IndexOutOfRange 2 2)"
    unfolding len by blast
  from T [where r = malformedReport and f = 1] h2
  have v2: "GetFrame malformedReport 1 = Inl (IndexOutOfRange 1 1)"
    by blast
  from T [where r = malformedReport and i = 0 and ks = "[''lloc'']" and html = False and n = 1
            and pp = examplePoint and rest = "[examplePoint\<lparr>Frames := [0]\<rparr>]"] h3
  have v3: "printProgramPoints False malformedReport [''lloc''] 0 1 (ProgramPoints malformedReport) =
     ([], Some (IndexOutOfRange 1 1))"
    unfolding pps by blast
  from T [where r = malformedReport and i = 0 and ks = "[]" and html = False and n = 1
            and pp = examplePoint and rest = "[examplePoint\<lparr>Frames := [0]\<rparr>]"] h4
  have "printProgramPoints False malformedReport [] 0 1 (ProgramPoints malformedReport) =
      printAllocation False malformedReport 1 examplePoint"
    unfolding pps by blast
  with a have v4: "printProgramPoints False malformedReport [] 0 1 (ProgramPoints malformedReport) =
     ([newline @ ''==== Allocation #1 ===='' @ newline, ''100 bytes in 1 blocks'' @ newline],
      Some (IndexOutOfRange 1 1))"
    by simp
  then have "snd (printProgramPoints False malformedReport [] 0 1 (ProgramPoints malformedReport)) =
      Some (IndexOutOfRange 1 1)"
    by simp
  with T [where r = malformedReport and ks = "[]" and html = False]
  have "render False malformedReport [] =
        (fst (printHeader False malformedReport) @
         fst (printProgramPoints False malformedReport [] 0 1 (ProgramPoints malformedReport)),
         Some (IndexOutOfRange 1 1))"
    by blast
  then have v5: "render False malformedReport [] =
     ([''Command: '' @ newline, ''PID: 0'' @ newline, ''Mode: '' @ newline,
       ''t-end: 0 '' @ newline,
       newline @ ''==== Allocation #1 ===='' @ newline, ''100 bytes in 1 blocks'' @ newline],
      Some (IndexOutOfRange 1 1))"
    unfolding v4 hdr by simp
  from T [where r = exampleReport and ks = "[]" and html = False and k = 0] h6 ne
  have v6: "shouldIgnore exampleReport (int 0) [] = Inr False \<and>
      list_all (resolves exampleReport) (Frames (ProgramPoints exampleReport ! 0))"
    by blast
  from h1 v1 h2 v2 h3 v3 h4 v4 v5 h6 v6 show ?thesis
    by blast
qed

text \<open>
  C7 as stated fails: the code has no failure of its own for an entry without separator.
  The entry \<^verbatim>\<open>alloc\<close>, at index 1 of a table of two entries, fails with the same
  \<^verbatim>\<open>index out of range [1] with length 1\<close> as index 1 does on a table of one entry.
\<close>

theorem GetFrame_failure_counterexample:
  "0 \<le> (1 :: int) \<and> 1 < int (length (FramesTable malformedReport)) \<and>
   FramesTable malformedReport ! nat 1 = ''alloc'' \<and>
   GetFrame malformedReport 1 = Inl (IndexOutOfRange 1 1) \<and>
   length (FramesTable twiceReport) = 1 \<and>
   GetFrame twiceReport 1 = Inl (IndexOutOfRange 1 1) \<and>
   GetFrame malformedReport 1 = GetFrame twiceReport 1"
  by code_simp

subsection \<open>The ignore file\<close>

lemma Index_first_single: "c \<notin> set a \<Longrightarrow> Index (a @ c # b) [c] = Some (length a)"
  by (induction a) auto

lemma Split_line:
  assumes "c \<notin> set l"
  shows "Split (l @ [c] @ rest) [c] = l # Split rest [c]" and "Split l [c] = [l]"
proof -
  from assms have "Index (l @ [c] @ rest) [c] = Some (length l)"
    by (simp add: Index_first_single)
  then have "Split (l @ [c] @ rest) [c] =
      take (length l) (l @ [c] @ rest) # Split (drop (length l + length [c]) (l @ [c] @ rest)) [c]"
    by (intro Split_Some) simp_all
  then show "Split (l @ [c] @ rest) [c] = l # Split rest [c]"
    by simp
  from assms have "\<not> Contains l [c]"
    by (auto simp: Contains_iff)
  then show "Split l [c] = [l]"
    by (intro Split_None) simp_all
qed

lemma ignoreLines_filter:
  "ignoreLines ls ignoreList =
     ignoreList @ filter (\<lambda>l. l \<noteq> [] \<and> hd l \<noteq> CHR ''#'') (map (\<lambda>l. Trim l [CHR '' '', CHR 0x09]) ls)"
  by (induction ls arbitrary: ignoreList) (simp_all add: Let_def)

lemma Trim_decompose:
  "\<exists>a b. l = a @ Trim l cs @ b \<and> set a \<subseteq> set cs \<and> set b \<subseteq> set cs"
proof -
  let ?P = "\<lambda>c. c \<in> set cs"
  let ?b = "rev (takeWhile ?P (rev l))"
  let ?a = "takeWhile ?P (TrimRight l cs)"
  have "TrimRight l cs @ ?b = rev (takeWhile ?P (rev l) @ dropWhile ?P (rev l))"
    unfolding TrimRight_def by (simp only: rev_append)
  also have "\<dots> = l"
    by simp
  finally have l: "l = TrimRight l cs @ ?b"
    by simp
  have t: "TrimRight l cs = ?a @ Trim l cs"
    by (simp add: Trim_def TrimLeft_def)
  have "l = (?a @ Trim l cs) @ ?b"
    by (subst t [symmetric]) (rule l)
  then have "l = ?a @ Trim l cs @ ?b"
    by (simp only: append_assoc)
  moreover have "set ?a \<subseteq> set cs"
    by (auto dest: set_takeWhileD)
  moreover have "set ?b \<subseteq> set cs"
    by (auto dest: set_takeWhileD)
  ultimately show ?thesis by blast
qed

lemma Trim_ends:
  assumes "Trim l cs \<noteq> []"
  shows "hd (Trim l cs) \<notin> set cs" and "last (Trim l cs) \<notin> set cs"
proof -
  let ?P = "\<lambda>c. c \<in> set cs"
  from assms show "hd (Trim l cs) \<notin> set cs"
    unfolding Trim_def TrimLeft_def by (rule hd_dropWhile)
  from assms have ne: "TrimRight l cs \<noteq> []"
    by (auto simp: Trim_def TrimLeft_def)
  then have "dropWhile ?P (rev l) \<noteq> []"
    by (simp add: TrimRight_def)
  then have "\<not> ?P (hd (dropWhile ?P (rev l)))"
    by (rule hd_dropWhile)
  with ne have "last (TrimRight l cs) \<notin> set cs"
    by (simp add: TrimRight_def last_rev)
  moreover have "TrimRight l cs = takeWhile ?P (TrimRight l cs) @ Trim l cs"
    by (simp add: Trim_def TrimLeft_def)
  then have "last (TrimRight l cs) = last (takeWhile ?P (TrimRight l cs) @ Trim l cs)"
    by (rule arg_cong)
  with assms have "last (TrimRight l cs) = last (Trim l cs)"
    by simp
  ultimately show "last (Trim l cs) \<notin> set cs"
    by simp
qed

text \<open>
  C6. \<open>parseIgnoreFile\<close> returns the empty list for the empty path. For a file that can
  be read it returns, in the order of the file, the trimmed lines that are neither empty
  nor start with \<^verbatim>\<open>#\<close>. The lines are the pieces of the content between newlines: a
  piece without newline that is followed by a newline is the first line, and the lines
  of what follows the newline come after it; content without newline is one line.
  Trimming removes from both ends characters of the cutset, here space and tab, and
  leaves a string that neither starts nor ends with one. A file with the lines
  \<^verbatim>\<open>"  foo  "\<close>, \<^verbatim>\<open>"#comment"\<close>, \<^verbatim>\<open>""\<close>, \<^verbatim>\<open>"bar"\<close> gives
  \<^verbatim>\<open>["foo", "bar"]\<close>.
\<close>

theorem parseIgnoreFile_lines:
  "parseIgnoreFile env [] = Inr [] \<and>
   (file \<noteq> [] \<and> ReadFile env file = Inr content \<longrightarrow>
      parseIgnoreFile env file =
        Inr (filter (\<lambda>l. l \<noteq> [] \<and> hd l \<noteq> CHR ''#'')
               (map (\<lambda>l. Trim l [CHR '' '', CHR 0x09]) (Split content newline)))) \<and>
   (CHR 0x0A \<notin> set l \<longrightarrow>
      Split (l @ newline @ rest) newline = l # Split rest newline \<and> Split l newline = [l]) \<and>
   (\<exists>a b. l = a @ Trim l cs @ b \<and> set a \<subseteq> set cs \<and> set b \<subseteq> set cs) \<and>
   (Trim l cs \<noteq> [] \<longrightarrow> hd (Trim l cs) \<notin> set cs \<and> last (Trim l cs) \<notin> set cs) \<and>
   (file \<noteq> [] \<and>
    ReadFile env file = Inr (''  foo  '' @ newline @ ''#comment'' @ newline @ [] @ newline @ ''bar'') \<longrightarrow>
      parseIgnoreFile env file = Inr [''foo'', ''bar''])"
proof (intro conjI impI)
  show "parseIgnoreFile env [] = Inr []"
    by (simp add: parseIgnoreFile_def)
  show "\<exists>a b. l = a @ Trim l cs @ b \<and> set a \<subseteq> set cs \<and> set b \<subseteq> set cs"
    by (rule Trim_decompose)
next
  assume "file \<noteq> [] \<and> ReadFile env file = Inr content"
  then show "parseIgnoreFile env file =
        Inr (filter (\<lambda>l. l \<noteq> [] \<and> hd l \<noteq> CHR ''#'')
               (map (\<lambda>l. Trim l [CHR '' '', CHR 0x09]) (Split content newline)))"
    by (simp add: parseIgnoreFile_def ignoreLines_filter)
next
  assume l: "CHR 0x0A \<notin> set l"
  then show "Split (l @ newline @ rest) newline = l # Split rest newline"
    unfolding newline_def by (rule Split_line)
  from l show "Split l newline = [l]"
    unfolding newline_def by (rule Split_line)
next
  assume t: "Trim l cs \<noteq> []"
  then show "hd (Trim l cs) \<notin> set cs"
    by (rule Trim_ends)
  from t show "last (Trim l cs) \<notin> set cs"
    by (rule Trim_ends)
next
  assume h: "file \<noteq> [] \<and>
    ReadFile env file = Inr (''  foo  '' @ newline @ ''#comment'' @ newline @ [] @ newline @ ''bar'')"
  have "ignoreLines (Split (''  foo  '' @ newline @ ''#comment'' @ newline @ [] @ newline @ ''bar'')
          newline) [] = [''foo'', ''bar'']"
    by code_simp
  with h show "parseIgnoreFile env file = Inr [''foo'', ''bar'']"
    by (simp add: parseIgnoreFile_def)
qed


theorem parseIgnoreFile_lines_witness:
  "''ignore.txt'' \<noteq> [] \<and>
   ReadFile exampleEnv ''ignore.txt'' =
     Inr (''  foo  '' @ newline @ ''#comment'' @ newline @ [] @ newline @ ''bar'') \<and>
   parseIgnoreFile exampleEnv ''ignore.txt'' = Inr [''foo'', ''bar''] \<and>
   CHR 0x0A \<notin> set ''  foo  '' \<and>
   Split (''  foo  '' @ newline @ ''#comment'') newline = [''  foo  '', ''#comment''] \<and>
   Trim ''  foo  '' [CHR '' '', CHR 0x09] = ''foo'' \<and>
   hd (Trim ''  foo  '' [CHR '' '', CHR 0x09]) \<notin> set [CHR '' '', CHR 0x09] \<and>
   last (Trim ''  foo  '' [CHR '' '', CHR 0x09]) \<notin> set [CHR '' '', CHR 0x09]"
proof -
  have h1: "''ignore.txt'' \<noteq> [] \<and>
      ReadFile exampleEnv ''ignore.txt'' =
        Inr (''  foo  '' @ newline @ ''#comment'' @ newline @ [] @ newline @ ''bar'')"
    by (simp add: exampleEnv_def)
  have h2: "CHR 0x0A \<notin> set ''  foo  ''" "CHR 0x0A \<notin> set ''#comment''"
    by simp_all
  have h3: "Trim ''  foo  '' [CHR '' '', CHR 0x09] = ''foo''"
    by code_simp
  then have h4: "Trim ''  foo  '' [CHR '' '', CHR 0x09] \<noteq> []"
    by simp
  note T = parseIgnoreFile_lines
  from T [where env = exampleEnv and ?file = "''ignore.txt''"] h1
  have v1: "parseIgnoreFile exampleEnv ''ignore.txt'' = Inr [''foo'', ''bar'']"
    by blast
  from T [where l = "''#comment''"] h2
  have "Split ''#comment'' newline = [''#comment'']"
    by blast
  moreover from T [where l = "''  foo  ''" and rest = "''#comment''"] h2
  have "Split (''  foo  '' @ newline @ ''#comment'') newline = ''  foo  '' # Split ''#comment'' newline"
    by blast
  ultimately have v2: "Split (''  foo  '' @ newline @ ''#comment'') newline = [''  foo  '', ''#comment'']"
    by simp
  from T [where l = "''  foo  ''" and cs = "[CHR '' '', CHR 0x09]"] h4
  have v3: "hd (Trim ''  foo  '' [CHR '' '', CHR 0x09]) \<notin> set [CHR '' '', CHR 0x09] \<and>
      last (Trim ''  foo  '' [CHR '' '', CHR 0x09]) \<notin> set [CHR '' '', CHR 0x09]"
    by blast
  from h1 h2 h3 v1 v2 v3 show ?thesis
    by blast
qed

subsection \<open>The version of the report\<close>

lemma itoa_dhatVersion: "itoa dhatVersion = ''2''"
  by code_simp

text \<open>
  C5. When the run reaches the report (the version flag is not set, there is one
  argument, the CPU profile, if asked for, could be created, the ignore file was read)
  and the report decoded has a version other than 2, \<open>mainErr\<close> returns the error
  \<^verbatim>\<open>DHAT report version V is not supported, only version 2 is supported\<close>, with the
  version found for V, and has printed nothing. More generally no run without the version
  flag on a report of another version prints anything or succeeds, whichever failure
  comes first.
\<close>

theorem unsupported_version:
  "(\<not> printVersion fl \<and> length (args fl) = 1 \<and>
    (if cpuProfile fl then Create env ''profile.cpu'' else None) = None \<and>
    parseIgnoreFile env (ignoreFile fl) = Inr ignoreList \<and>
    parseReport env (hd (args fl)) = Inr report \<and> Version report \<noteq> 2 \<longrightarrow>
      mainErr env fl =
        ([], Some (Errorf (''DHAT report version '' @ itoa (Version report) @
                           '' is not supported, only version 2 is supported'')))) \<and>
   (\<not> printVersion fl \<and> parseReport env (hd (args fl)) = Inr report \<and> Version report \<noteq> 2 \<longrightarrow>
      fst (mainErr env fl) = [] \<and> snd (mainErr env fl) \<noteq> None)"
proof (intro conjI impI)
  assume "\<not> printVersion fl \<and> length (args fl) = 1 \<and>
    (if cpuProfile fl then Create env ''profile.cpu'' else None) = None \<and>
    parseIgnoreFile env (ignoreFile fl) = Inr ignoreList \<and>
    parseReport env (hd (args fl)) = Inr report \<and> Version report \<noteq> 2"
  then show "mainErr env fl =
        ([], Some (Errorf (''DHAT report version '' @ itoa (Version report) @
                           '' is not supported, only version 2 is supported'')))"
    by (simp add: mainErr_def itoa_dhatVersion) (simp add: dhatVersion_def)
next
  assume h: "\<not> printVersion fl \<and> parseReport env (hd (args fl)) = Inr report \<and> Version report \<noteq> 2"
  then have "Version report \<noteq> dhatVersion"
    by (simp add: dhatVersion_def)
  with h show "fst (mainErr env fl) = []" and "snd (mainErr env fl) \<noteq> None"
    by (simp_all add: mainErr_def split: option.splits sum.splits)
qed

theorem unsupported_version_witness:
  "\<not> printVersion exampleFlags \<and> length (args exampleFlags) = 1 \<and>
   (if cpuProfile exampleFlags then Create exampleEnv ''profile.cpu'' else None) = None \<and>
   parseIgnoreFile exampleEnv (ignoreFile exampleFlags) = Inr [''foo'', ''bar''] \<and>
   parseReport exampleEnv (hd (args exampleFlags)) = Inr (exampleReport\<lparr>Version := 1\<rparr>) \<and>
   Version (exampleReport\<lparr>Version := 1\<rparr>) \<noteq> 2 \<and>
   mainErr exampleEnv exampleFlags =
     ([], Some (Errorf ''DHAT report version 1 is not supported, only version 2 is supported''))"
proof -
  have h: "\<not> printVersion exampleFlags \<and> length (args exampleFlags) = 1 \<and>
     (if cpuProfile exampleFlags then Create exampleEnv ''profile.cpu'' else None) = None \<and>
     parseIgnoreFile exampleEnv (ignoreFile exampleFlags) = Inr [''foo'', ''bar''] \<and>
     parseReport exampleEnv (hd (args exampleFlags)) = Inr (exampleReport\<lparr>Version := 1\<rparr>) \<and>
     Version (exampleReport\<lparr>Version := 1\<rparr>) \<noteq> 2"
    by code_simp
  have d: "itoa (Version (exampleReport\<lparr>Version := 1\<rparr>)) = ''1''"
    by code_simp
  from unsupported_version
    [where fl = exampleFlags and env = exampleEnv and ignoreList = "[''foo'', ''bar'']"
       and report = "exampleReport\<lparr>Version := 1\<rparr>"] h
  have "mainErr exampleEnv exampleFlags =
        ([], Some (Errorf (''DHAT report version '' @
                           itoa (Version (exampleReport\<lparr>Version := 1\<rparr>)) @
                           '' is not supported, only version 2 is supported'')))"
    by blast
  then have "mainErr exampleEnv exampleFlags =
     ([], Some (Errorf ''DHAT report version 1 is not supported, only version 2 is supported''))"
    unfolding d by simp
  with h show ?thesis
    by blast
qed

end
